theory Spec2Isabelle
  imports Main "HOL-Library.Char_ord" "HOL-Library.List_Lexorder" "HOL-Library.Product_Lexorder"
begin

section \<open>Exceptions, HTTP responses and the network\<close>

text \<open>
  Python exceptions are values. \<open>RequestException\<close> stands for whatever the HTTP client
  raises from \<open>session.get\<close> (connection error, timeout, ...), tagged by its message;
  \<open>HTTPError\<close> is what \<open>raise_for_status\<close> raises, tagged by the status code;
  \<open>TypeError\<close> is what the interpreter raises when a \<open>raise\<close> statement is given a
  value that is no exception (such as \<open>None\<close>); \<open>ValueError\<close> is raised by the URL
  parser, \<open>IndexError\<close> by indexing an empty list.
\<close>

datatype exn = RequestException string | HTTPError nat | TypeError | ValueError | IndexError

record response =
  status_code :: nat
  resp_text :: string

text \<open>
  The network as seen by one session: the answer to the \<open>k\<close>-th request the session
  makes (counted from 0) for a given URL. Every call of \<open>session.get\<close> is an entry \<open>Get\<close>
  of the trace, every \<open>time.sleep\<close> an entry \<open>Sleep\<close> with its duration in milliseconds.
\<close>

type_synonym http = "nat \<Rightarrow> string \<Rightarrow> exn + response"

datatype event = Get string | Sleep nat

type_synonym 'a traced = "(exn + 'a) \<times> event list"

definition after :: "event list \<Rightarrow> 'a traced \<Rightarrow> 'a traced" where
  "after evs r = (fst r, evs @ snd r)"

fun is_Get :: "event \<Rightarrow> bool" where
  "is_Get (Get u) = True"
| "is_Get (Sleep d) = False"

definition requests :: "event list \<Rightarrow> nat" where
  "requests t = length (filter is_Get t)"

text \<open>\<open>Response.raise_for_status\<close>: an \<open>HTTPError\<close> for a status from 400 to 599.\<close>

definition raise_for_status :: "response \<Rightarrow> exn + unit" where
  "raise_for_status r =
     (if 400 \<le> status_code r \<and> status_code r < 600 then Inl (HTTPError (status_code r))
      else Inr ())"

section \<open>The bounded retry loop\<close>

text \<open>
  \<open>raise last\<close>: with \<open>last = None\<close> the statement raises \<open>TypeError\<close>
  (exceptions must derive from BaseException).
\<close>

definition raise_last :: "exn option \<Rightarrow> exn" where
  "raise_last last_exn = (case last_exn of None \<Rightarrow> TypeError | Some e \<Rightarrow> e)"

text \<open>
  The body of \<open>for _ in range(RETRIES + 1)\<close>: \<open>n\<close> iterations remain, \<open>k\<close> requests
  have been made, \<open>last_exn\<close> is the variable \<open>last\<close>.
\<close>

fun retry_loop :: "http \<Rightarrow> string \<Rightarrow> nat \<Rightarrow> nat \<Rightarrow> exn option \<Rightarrow> string traced" where
  "retry_loop h url 0 k last_exn = (Inl (raise_last last_exn), [])"
| "retry_loop h url (Suc n) k last_exn =
     (case h k url of
        Inl e \<Rightarrow> after [Get url, Sleep 400] (retry_loop h url n (Suc k) (Some e))
      | Inr r \<Rightarrow>
          if status_code r \<ge> 500
          then after [Get url, Sleep 600] (retry_loop h url n (Suc k) last_exn)
          else (case raise_for_status r of
                  Inl e \<Rightarrow> after [Get url, Sleep 400] (retry_loop h url n (Suc k) (Some e))
                | Inr _ \<Rightarrow> (Inr (resp_text r), [Get url])))"

text \<open>\<open>RETRIES\<close> is read from the environment as an integer; \<open>range\<close> of a
  non-positive number is empty.\<close>

definition get_with_retries :: "int \<Rightarrow> http \<Rightarrow> string \<Rightarrow> string traced" where
  "get_with_retries RETRIES h url = retry_loop h url (nat (RETRIES + 1)) 0 None"

definition RETRIES_default :: int where
  "RETRIES_default = 2"

section \<open>Domain selection\<close>

text \<open>\<open>str.rstrip(chars)\<close> and \<open>str.lstrip(chars)\<close>.\<close>

definition rstrip :: "string \<Rightarrow> string \<Rightarrow> string" where
  "rstrip chars s = rev (dropWhile (\<lambda>c. c \<in> set chars) (rev s))"

definition lstrip :: "string \<Rightarrow> string \<Rightarrow> string" where
  "lstrip chars s = dropWhile (\<lambda>c. c \<in> set chars) s"

definition HIANIME_DOMAIN_POOL :: "string list" where
  "HIANIME_DOMAIN_POOL =
     [''https://hianimez.is'', ''https://hianimez.to'', ''https://hianime.is'',
      ''https://hianime.bz'', ''https://hianimez.bz'']"

text \<open>The \<open>for base in HIANIME_DOMAIN_POOL\<close> loop; \<open>None\<close> when it falls through.\<close>

fun pick_loop :: "http \<Rightarrow> nat \<Rightarrow> string list \<Rightarrow> string option \<times> event list" where
  "pick_loop h k [] = (None, [])"
| "pick_loop h k (base # rest) =
     (case h k base of
        Inl e \<Rightarrow> (let r = pick_loop h (Suc k) rest in (fst r, Get base # snd r))
      | Inr r \<Rightarrow>
          if status_code r < 500 then (Some (rstrip ''/'' base), [Get base])
          else (let r = pick_loop h (Suc k) rest in (fst r, Get base # snd r)))"

definition pick_live_base :: "string list \<Rightarrow> http \<Rightarrow> string traced" where
  "pick_live_base pool h =
     (case pick_loop h 0 pool of
        (Some b, t) \<Rightarrow> (Inr b, t)
      | (None, t) \<Rightarrow>
          (case pool of [] \<Rightarrow> (Inl IndexError, t) | p # _ \<Rightarrow> (Inr (rstrip ''/'' p), t)))"

section \<open>Python string helpers\<close>

definition find_char :: "char \<Rightarrow> string \<Rightarrow> nat option" where
  \<comment> \<open>\<open>s.find(c)\<close>, with \<open>None\<close> for -1\<close>
  "find_char c s = (if c \<in> set s then Some (length (takeWhile (\<lambda>x. x \<noteq> c) s)) else None)"

definition split1 :: "char \<Rightarrow> string \<Rightarrow> string \<times> string" where
  \<comment> \<open>\<open>s.split(c, 1)\<close> for a string that holds \<open>c\<close>: the text before and after the first \<open>c\<close>\<close>
  "split1 c s = (takeWhile (\<lambda>x. x \<noteq> c) s, drop 1 (dropWhile (\<lambda>x. x \<noteq> c) s))"

fun split_on :: "char \<Rightarrow> string \<Rightarrow> string list" where
  \<comment> \<open>\<open>s.split(c)\<close>\<close>
  "split_on c [] = [[]]"
| "split_on c (x # xs) =
     (if x = c then [] # split_on c xs
      else (case split_on c xs of [] \<Rightarrow> [[x]] | seg # segs \<Rightarrow> (x # seg) # segs))"

fun join :: "string \<Rightarrow> string list \<Rightarrow> string" where
  \<comment> \<open>\<open>sep.join(parts)\<close>\<close>
  "join sep [] = []"
| "join sep [x] = x"
| "join sep (x # y # ys) = x @ sep @ join sep (y # ys)"

definition is_ascii_upper :: "char \<Rightarrow> bool" where
  "is_ascii_upper c = (CHR ''A'' \<le> c \<and> c \<le> CHR ''Z'')"

definition is_ascii_lower :: "char \<Rightarrow> bool" where
  "is_ascii_lower c = (CHR ''a'' \<le> c \<and> c \<le> CHR ''z'')"


definition lower_char :: "char \<Rightarrow> char" where
  "lower_char c = (if is_ascii_upper c then char_of (of_char c + (32::nat)) else c)"

definition py_isspace :: "char \<Rightarrow> bool" where
  \<comment> \<open>\<open>str.isspace\<close> and the class \<open>\s\<close> on code points below 256\<close>
  "py_isspace c = (of_char c \<in> {9::nat, 10, 11, 12, 13, 28, 29, 30, 31, 32, 133, 160})"


section \<open>URL parsing and joining (urllib.parse)\<close>

text \<open>
  The functions of the standard library that the scraper calls, after CPython 3.11.
  Strings are lists of 8-bit characters (code points below 256), on which the
  NFKC check of the network location never fails. The validation of a bracketed host
  (an IP literal) is the parameter \<open>vb\<close>: it says which bracketed hosts are accepted.
\<close>

record split_result =
  scheme :: string
  netloc :: string
  path :: string
  query :: string
  fragment :: string

record parse_result = split_result +
  params :: string

definition uses_relative :: "string list" where
  "uses_relative = ['''', ''ftp'', ''http'', ''gopher'', ''nntp'', ''imap'',
     ''wais'', ''file'', ''https'', ''shttp'', ''mms'',
     ''prospero'', ''rtsp'', ''rtsps'', ''rtspu'', ''sftp'',
     ''svn'', ''svn+ssh'', ''ws'', ''wss'']"

definition uses_netloc :: "string list" where
  "uses_netloc = ['''', ''ftp'', ''http'', ''gopher'', ''nntp'', ''telnet'',
     ''imap'', ''wais'', ''file'', ''mms'', ''https'', ''shttp'',
     ''snews'', ''prospero'', ''rtsp'', ''rtsps'', ''rtspu'', ''rsync'',
     ''svn'', ''svn+ssh'', ''sftp'', ''nfs'', ''git'', ''git+ssh'',
     ''ws'', ''wss'']"

definition uses_params :: "string list" where
  "uses_params = ['''', ''ftp'', ''hdl'', ''prospero'', ''http'', ''imap'',
     ''https'', ''shttp'', ''rtsp'', ''rtsps'', ''rtspu'', ''sip'',
     ''sips'', ''mms'', ''sftp'', ''tel'']"

definition scheme_chars :: string where
  "scheme_chars = ''abcdefghijklmnopqrstuvwxyzABCDEFGHIJKLMNOPQRSTUVWXYZ0123456789+-.''"

definition C0_CONTROL_OR_SPACE :: "char \<Rightarrow> bool" where
  "C0_CONTROL_OR_SPACE c = (of_char c \<le> (32::nat))"

definition UNSAFE_URL_BYTES_TO_REMOVE :: string where
  "UNSAFE_URL_BYTES_TO_REMOVE = [CHR 0x09, CHR 0x0D, CHR 0x0A]"

definition splitnetloc :: "string \<Rightarrow> string \<times> string" where
  \<comment> \<open>\<open>_splitnetloc(url, 2)\<close>\<close>
  "splitnetloc url =
     (takeWhile (\<lambda>c. c \<notin> set ''/?#'') (drop 2 url),
      dropWhile (\<lambda>c. c \<notin> set ''/?#'') (drop 2 url))"

definition bracketed_host :: "string \<Rightarrow> string" where
  \<comment> \<open>\<open>netloc.partition('[')[2].partition(']')[0]\<close>\<close>
  "bracketed_host nl =
     takeWhile (\<lambda>c. c \<noteq> CHR '']'') (drop 1 (dropWhile (\<lambda>c. c \<noteq> CHR ''['') nl))"

definition split_scheme :: "string \<Rightarrow> string \<Rightarrow> string \<times> string" where
  \<comment> \<open>the scheme block of \<open>urlsplit\<close>: the text before the first colon is the scheme when
     it starts with an ASCII letter and consists of scheme characters\<close>
  "split_scheme scheme1 url1 =
     (case find_char CHR '':'' url1 of
        None \<Rightarrow> (scheme1, url1)
      | Some i \<Rightarrow>
          if i > 0 \<and> (is_ascii_upper (hd url1) \<or> is_ascii_lower (hd url1))
             \<and> (\<forall>c \<in> set (take i url1). c \<in> set scheme_chars)
          then (map lower_char (take i url1), drop (i + 1) url1)
          else (scheme1, url1))"

definition urlsplit :: "(string \<Rightarrow> bool) \<Rightarrow> string \<Rightarrow> string \<Rightarrow> exn + split_result" where
  "urlsplit vb url0 scheme0 =
     (let url1 = filter (\<lambda>c. c \<notin> set UNSAFE_URL_BYTES_TO_REMOVE) (dropWhile C0_CONTROL_OR_SPACE url0);
          scheme1 = filter (\<lambda>c. c \<notin> set UNSAFE_URL_BYTES_TO_REMOVE)
                      (rev (dropWhile C0_CONTROL_OR_SPACE (rev (dropWhile C0_CONTROL_OR_SPACE scheme0))));
          (scheme2, url2) = split_scheme scheme1 url1;
          (nl, url3) = (if take 2 url2 = ''//'' then splitnetloc url2 else ('''', url2))
      in if take 2 url2 = ''//'' \<and>
            ((CHR ''['' \<in> set nl \<and> CHR '']'' \<notin> set nl) \<or> (CHR '']'' \<in> set nl \<and> CHR ''['' \<notin> set nl))
         then Inl ValueError
         else if take 2 url2 = ''//'' \<and> CHR ''['' \<in> set nl \<and> CHR '']'' \<in> set nl
                 \<and> \<not> vb (bracketed_host nl)
         then Inl ValueError
         else
           (let (url4, frag) = (if CHR ''#'' \<in> set url3 then split1 CHR ''#'' url3 else (url3, ''''));
                (url5, qry) = (if CHR ''?'' \<in> set url4 then split1 CHR ''?'' url4 else (url4, ''''))
            in Inr \<lparr>scheme = scheme2, netloc = nl, path = url5, query = qry, fragment = frag\<rparr>))"

definition splitparams :: "string \<Rightarrow> string \<times> string" where
  \<comment> \<open>\<open>_splitparams\<close>: the first \<open>;\<close> of the last path segment\<close>
  "splitparams url =
     (if CHR ''/'' \<in> set url
      then (let r = length url - 1 - length (takeWhile (\<lambda>c. c \<noteq> CHR ''/'') (rev url))
            in (case find_char CHR '';'' (drop r url) of
                  None \<Rightarrow> (url, '''')
                | Some j \<Rightarrow> (take (r + j) url, drop (r + j + 1) url)))
      else (case find_char CHR '';'' url of
              None \<Rightarrow> (butlast url, url)
            | Some i \<Rightarrow> (take i url, drop (i + 1) url)))"

definition urlparse :: "(string \<Rightarrow> bool) \<Rightarrow> string \<Rightarrow> string \<Rightarrow> exn + parse_result" where
  "urlparse vb url scheme0 =
     (case urlsplit vb url scheme0 of
        Inl e \<Rightarrow> Inl e
      | Inr sr \<Rightarrow>
          (let (url', ps) = (if scheme sr \<in> set uses_params \<and> CHR '';'' \<in> set (path sr)
                             then splitparams (path sr) else (path sr, ''''))
           in Inr \<lparr>scheme = scheme sr, netloc = netloc sr, path = url', query = query sr,
                    fragment = fragment sr, params = ps\<rparr>))"

definition urlunsplit :: "string \<Rightarrow> string \<Rightarrow> string \<Rightarrow> string \<Rightarrow> string \<Rightarrow> string" where
  "urlunsplit sch nl url qry frag =
     (let url1 = (if nl \<noteq> '''' \<or> (sch \<noteq> '''' \<and> sch \<in> set uses_netloc) \<or> take 2 url = ''//''
                  then ''//'' @ nl @ (if url \<noteq> '''' \<and> take 1 url \<noteq> ''/'' then ''/'' @ url else url)
                  else url);
          url2 = (if sch \<noteq> '''' then sch @ '':'' @ url1 else url1);
          url3 = (if qry \<noteq> '''' then url2 @ ''?'' @ qry else url2)
      in if frag \<noteq> '''' then url3 @ ''#'' @ frag else url3)"

definition urlunparse :: "string \<Rightarrow> string \<Rightarrow> string \<Rightarrow> string \<Rightarrow> string \<Rightarrow> string \<Rightarrow> string" where
  "urlunparse sch nl url ps qry frag =
     urlunsplit sch nl (if ps \<noteq> '''' then url @ '';'' @ ps else url) qry frag"

text \<open>The loop of \<open>urljoin\<close> over the segments: \<open>..\<close> pops (nothing, when the stack
  is empty), \<open>.\<close> is skipped, anything else is appended.\<close>

fun resolve_segments :: "string list \<Rightarrow> string list \<Rightarrow> string list" where
  "resolve_segments resolved_path [] = resolved_path"
| "resolve_segments resolved_path (seg # segs) =
     (if seg = ''..'' then resolve_segments (butlast resolved_path) segs
      else if seg = ''.'' then resolve_segments resolved_path segs
      else resolve_segments (resolved_path @ [seg]) segs)"

definition filter_middle :: "string list \<Rightarrow> string list" where
  \<comment> \<open>\<open>segments[1:-1] = filter(None, segments[1:-1])\<close>\<close>
  "filter_middle segments =
     (if length segments \<le> 2 then segments
      else hd segments # filter (\<lambda>s. s \<noteq> '''') (butlast (tl segments)) @ [last segments])"

definition urljoin :: "(string \<Rightarrow> bool) \<Rightarrow> string \<Rightarrow> string \<Rightarrow> exn + string" where
  "urljoin vb base url =
     (if base = '''' then Inr url
      else if url = '''' then Inr base
      else
        (case urlparse vb base '''' of
           Inl e \<Rightarrow> Inl e
         | Inr b \<Rightarrow>
             (case urlparse vb url (scheme b) of
                Inl e \<Rightarrow> Inl e
              | Inr u \<Rightarrow>
                  if scheme u \<noteq> scheme b \<or> scheme u \<notin> set uses_relative then Inr url
                  else if scheme u \<in> set uses_netloc \<and> netloc u \<noteq> ''''
                  then Inr (urlunparse (scheme u) (netloc u) (path u) (params u) (query u) (fragment u))
                  else
                    (let nl = (if scheme u \<in> set uses_netloc then netloc b else netloc u)
                     in if path u = '''' \<and> params u = ''''
                        then Inr (urlunparse (scheme u) nl (path b) (params b)
                                    (if query u = '''' then query b else query u) (fragment u))
                        else
                          (let base_parts0 = split_on CHR ''/'' (path b);
                               base_parts = (if last base_parts0 \<noteq> '''' then butlast base_parts0 else base_parts0);
                               segments = (if take 1 (path u) = ''/'' then split_on CHR ''/'' (path u)
                                           else filter_middle (base_parts @ split_on CHR ''/'' (path u)));
                               resolved0 = resolve_segments [] segments;
                               resolved_path = (if last segments \<in> {''.'', ''..''} then resolved0 @ [''''] else resolved0);
                               joined = join ''/'' resolved_path
                           in Inr (urlunparse (scheme u) nl (if joined = '''' then ''/'' else joined)
                                     (params u) (query u) (fragment u)))))))"

section \<open>Resolving the authority and absolute links\<close>

definition abs_url :: "(string \<Rightarrow> bool) \<Rightarrow> string \<Rightarrow> string \<Rightarrow> exn + string" where
  \<comment> \<open>\<open>_abs\<close>\<close>
  "abs_url vb base maybe_rel = urljoin vb (base @ ''/'') maybe_rel"

definition base_of :: "(string \<Rightarrow> bool) \<Rightarrow> string list \<Rightarrow> http \<Rightarrow> string \<Rightarrow> string traced" where
  \<comment> \<open>\<open>_base_of\<close>: a \<open>ValueError\<close> of the parser is swallowed by the \<open>except\<close> clause\<close>
  "base_of vb pool h url =
     (case urlparse vb url '''' of
        Inr p \<Rightarrow> if scheme p \<noteq> '''' \<and> netloc p \<noteq> '''' then (Inr (scheme p @ ''://'' @ netloc p), [])
                 else pick_live_base pool h
      | Inl e \<Rightarrow> pick_live_base pool h)"

section \<open>Regular expressions (re.search with re.I)\<close>

text \<open>
  The fragment of Python's regular expressions that the scraper's patterns use, with the
  flag \<open>re.I\<close> always set: literal text (compared without regard to letter case),
  greedy repetition of a character class, sequence, alternation and one capturing group.
  \<open>rmatch r s\<close> lists, in the order in which the backtracking matcher tries them, the
  ways \<open>r\<close> matches a prefix of \<open>s\<close>: the text left over and the group captured.
\<close>

datatype rx =
    Lit string
  | Star "char \<Rightarrow> bool"
  | Plus "char \<Rightarrow> bool"
  | Opt "char \<Rightarrow> bool"
  | Seq rx rx
  | Alt rx rx
  | Grp rx

definition ci_eq :: "string \<Rightarrow> string \<Rightarrow> bool" where
  "ci_eq a b = (map lower_char a = map lower_char b)"

fun rmatch :: "rx \<Rightarrow> string \<Rightarrow> (string \<times> string option) list" where
  "rmatch (Lit w) s = (if ci_eq (take (length w) s) w then [(drop (length w) s, None)] else [])"
| "rmatch (Star p) s = map (\<lambda>n. (drop n s, None)) (rev [0 ..< Suc (length (takeWhile p s))])"
| "rmatch (Plus p) s = map (\<lambda>n. (drop n s, None)) (rev [1 ..< Suc (length (takeWhile p s))])"
| "rmatch (Opt p) s = map (\<lambda>n. (drop n s, None)) (rev [0 ..< Suc (length (takeWhile p (take 1 s)))])"
| "rmatch (Seq a b) s =
     concat (map (\<lambda>(s1, g1). map (\<lambda>(s2, g2). (s2, case g2 of None \<Rightarrow> g1 | Some g \<Rightarrow> Some g))
                                  (rmatch b s1))
                 (rmatch a s))"
| "rmatch (Alt a b) s = rmatch a s @ rmatch b s"
| "rmatch (Grp a) s = map (\<lambda>(s1, g). (s1, Some (take (length s - length s1) s))) (rmatch a s)"

text \<open>\<open>re.search\<close>: the first way of matching at the leftmost position that has one.
  The result is \<open>group(1)\<close> of the match object, \<open>None\<close> when there is no match.\<close>

fun re_search :: "rx \<Rightarrow> string \<Rightarrow> string option option" where
  "re_search r [] = (case rmatch r [] of [] \<Rightarrow> None | (rest, g) # _ \<Rightarrow> Some g)"
| "re_search r (c # cs) =
     (case rmatch r (c # cs) of [] \<Rightarrow> re_search r cs | (rest, g) # _ \<Rightarrow> Some g)"

fun seqs :: "rx list \<Rightarrow> rx" where
  "seqs [] = Lit []"
| "seqs [r] = r"
| "seqs (r # rs) = Seq r (seqs rs)"

definition ws :: rx where
  \<comment> \<open>\<open>\s*\<close>\<close>
  "ws = Star py_isspace"

definition not_quote :: "char \<Rightarrow> bool" where
  \<comment> \<open>the class \<open>[^"]\<close>\<close>
  "not_quote c = (c \<noteq> CHR 0x22)"

definition quoted :: "string \<Rightarrow> string" where
  "quoted s = CHR 0x22 # s @ [CHR 0x22]"

definition HLS_RE :: rx where
  \<comment> \<open>\<open>"label"\s*:\s*"HD-2"\s*,\s*"(?:file|url)"\s*:\s*"([^"]+\.m3u8)"\<close>\<close>
  "HLS_RE = seqs [Lit (quoted ''label''), ws, Lit '':'', ws, Lit (quoted ''HD-2''), ws, Lit '','', ws,
                  Lit [CHR 0x22], Alt (Lit ''file'') (Lit ''url''), Lit [CHR 0x22], ws, Lit '':'', ws,
                  Lit [CHR 0x22], Grp (Seq (Plus not_quote) (Lit ''.m3u8'')), Lit [CHR 0x22]]"

definition SUB_CODE_RE :: rx where
  \<comment> \<open>\<open>"srclang"\s*:\s*"en"\s*,\s*"(?:file|url|src)"\s*:\s*"([^"]+\.(?:vtt|srt))"\<close>\<close>
  "SUB_CODE_RE = seqs [Lit (quoted ''srclang''), ws, Lit '':'', ws, Lit (quoted ''en''), ws, Lit '','', ws,
                  Lit [CHR 0x22], Alt (Lit ''file'') (Alt (Lit ''url'') (Lit ''src'')), Lit [CHR 0x22],
                  ws, Lit '':'', ws,
                  Lit [CHR 0x22],
                  Grp (seqs [Plus not_quote, Lit ''.'', Alt (Lit ''vtt'') (Lit ''srt'')]),
                  Lit [CHR 0x22]]"

definition SUB_NAME_RE :: rx where
  \<comment> \<open>\<open>"lang"\s*:\s*"English[^"]*"\s*,\s*"(?:file|url|src)"\s*:\s*"([^"]+\.(?:vtt|srt))"\<close>\<close>
  "SUB_NAME_RE = seqs [Lit (quoted ''lang''), ws, Lit '':'', ws,
                  Lit (CHR 0x22 # ''English''), Star not_quote, Lit [CHR 0x22], ws, Lit '','', ws,
                  Lit [CHR 0x22], Alt (Lit ''file'') (Alt (Lit ''url'') (Lit ''src'')), Lit [CHR 0x22],
                  ws, Lit '':'', ws,
                  Lit [CHR 0x22],
                  Grp (seqs [Plus not_quote, Lit ''.'', Alt (Lit ''vtt'') (Lit ''srt'')]),
                  Lit [CHR 0x22]]"



section \<open>Rendered pages\<close>






section \<open>Search\<close>




section \<open>Episode list\<close>














section \<open>Stream and subtitle extraction\<close>

definition extract_from_html :: "string \<Rightarrow> string option \<times> string option" where
  "extract_from_html html =
     (let hls_url = (case re_search HLS_RE html of Some g \<Rightarrow> g | None \<Rightarrow> None);
          m_sub = (case re_search SUB_CODE_RE html of
                     Some g \<Rightarrow> Some g
                   | None \<Rightarrow> re_search SUB_NAME_RE html);
          sub_url = (case m_sub of Some g \<Rightarrow> g | None \<Rightarrow> None)
      in (hls_url, sub_url))"

definition extract_episode_stream_and_subtitle ::
  "int \<Rightarrow> http \<Rightarrow> string \<Rightarrow> (string option \<times> string option) traced" where
  "extract_episode_stream_and_subtitle RETRIES h episode_url =
     (case get_with_retries RETRIES h episode_url of
        (Inl e, t) \<Rightarrow> (Inl e, t)
      | (Inr html, t) \<Rightarrow> (Inr (extract_from_html html), t))"

section \<open>Reference notions for the properties\<close>

text \<open>A server that answers 503 to every request, and one that answers 200.\<close>

definition always_503 :: http where
  "always_503 k url = Inr \<lparr>status_code = 503, resp_text = ''Service Unavailable''\<rparr>"

definition all_ok :: http where
  "all_ok k url = Inr \<lparr>status_code = 200, resp_text = ''<html></html>''\<rparr>"

text \<open>A network on which the first request raises, the second is answered 503 and
  every later one 200.\<close>

definition flaky :: http where
  "flaky k url =
     (if k = 0 then Inl (RequestException ''timed out'')
      else if k = 1 then Inr \<lparr>status_code = 503, resp_text = ''busy''\<rparr>
      else Inr \<lparr>status_code = 200, resp_text = ''<html>ok</html>''\<rparr>)"

text \<open>The probe of a pool entry succeeds: the request returns a response with a status
  below 500. \<open>chosen\<close> is the first entry of the pool whose probe succeeds, and the first
  entry of the pool when there is none.\<close>

definition responds_ok :: "http \<Rightarrow> nat \<Rightarrow> string \<Rightarrow> bool" where
  "responds_ok h k base = (case h k base of Inl e \<Rightarrow> False | Inr r \<Rightarrow> status_code r < 500)"

fun first_live :: "http \<Rightarrow> nat \<Rightarrow> string list \<Rightarrow> string option" where
  "first_live h k [] = None"
| "first_live h k (b # bs) = (if responds_ok h k b then Some b else first_live h (Suc k) bs)"

definition chosen :: "http \<Rightarrow> string list \<Rightarrow> string" where
  "chosen h pool = (case first_live h 0 pool of Some b \<Rightarrow> b | None \<Rightarrow> hd pool)"

text \<open>The bracket checks of \<open>urlsplit\<close> pass on a network location.\<close>

definition bracket_ok :: "(string \<Rightarrow> bool) \<Rightarrow> string \<Rightarrow> bool" where
  "bracket_ok vb nl =
     (\<not> ((CHR ''['' \<in> set nl \<and> CHR '']'' \<notin> set nl) \<or> (CHR '']'' \<in> set nl \<and> CHR ''['' \<notin> set nl))
      \<and> \<not> (CHR ''['' \<in> set nl \<and> CHR '']'' \<in> set nl \<and> \<not> vb (bracketed_host nl)))"

text \<open>A URL is absolute when the parser finds both a scheme and a network location in
  it. \<open>any_host\<close> accepts every bracketed host.\<close>

definition is_absolute :: "(string \<Rightarrow> bool) \<Rightarrow> string \<Rightarrow> bool" where
  "is_absolute vb url =
     (case urlparse vb url '''' of Inl e \<Rightarrow> False | Inr p \<Rightarrow> scheme p \<noteq> '''' \<and> netloc p \<noteq> '''')"

definition any_host :: "string \<Rightarrow> bool" where
  "any_host s = True"

section \<open>What a pattern matches\<close>

text \<open>
  The words a pattern matches, with the group captured: \<open>lang r w g\<close> says that \<open>r\<close>
  matches exactly the word \<open>w\<close> and that group 1 is then \<open>g\<close>. A match of \<open>r\<close> occurs
  in \<open>s\<close> after the prefix \<open>pre\<close> when \<open>pre\<close> is followed in \<open>s\<close> by such a word.
\<close>

fun lang :: "rx \<Rightarrow> string \<Rightarrow> string option \<Rightarrow> bool" where
  "lang (Lit l) w g = (ci_eq w l \<and> g = None)"
| "lang (Star p) w g = ((\<forall>c \<in> set w. p c) \<and> g = None)"
| "lang (Plus p) w g = (w \<noteq> [] \<and> (\<forall>c \<in> set w. p c) \<and> g = None)"
| "lang (Opt p) w g = ((w = [] \<or> (\<exists>c. w = [c] \<and> p c)) \<and> g = None)"
| "lang (Seq a b) w g =
     (\<exists>w1 w2 g1 g2. w = w1 @ w2 \<and> lang a w1 g1 \<and> lang b w2 g2
        \<and> g = (case g2 of None \<Rightarrow> g1 | Some x \<Rightarrow> Some x))"
| "lang (Alt a b) w g = (lang a w g \<or> lang b w g)"
| "lang (Grp a) w g = ((\<exists>g'. lang a w g') \<and> g = Some w)"

definition occurs :: "rx \<Rightarrow> string \<Rightarrow> string \<Rightarrow> string \<Rightarrow> string option \<Rightarrow> bool" where
  "occurs r s pre w g = (\<exists>rest. s = pre @ w @ rest \<and> lang r w g)"

section \<open>Reference notions for the episode list\<close>











section \<open>Reference notions for the search\<close>






section \<open>Reference notions for the extraction\<close>

text \<open>
  The fragments the three patterns describe, in words: a fragment is a sequence of pieces
  (literal text, compared without regard to letter case; runs of white space; one of several
  keys) followed by a quoted URL. The URL of a stream ends in \<open>.m3u8\<close>, that of a subtitle
  in \<open>.vtt\<close> or \<open>.srt\<close>, in any letter case, after at least one other character, and holds
  no double quote.
\<close>

definition spaces :: "string \<Rightarrow> bool" where
  "spaces w = (\<forall>c \<in> set w. py_isspace c)"

definition no_quotes :: "string \<Rightarrow> bool" where
  "no_quotes w = (\<forall>c \<in> set w. c \<noteq> CHR 0x22)"

definition is_text :: "string \<Rightarrow> string \<Rightarrow> bool" where
  "is_text l w = ci_eq w l"

definition one_of :: "string list \<Rightarrow> string \<Rightarrow> bool" where
  "one_of ks w = (\<exists>k \<in> set ks. ci_eq w k)"

fun pieces :: "(string \<Rightarrow> bool) list \<Rightarrow> string \<Rightarrow> bool" where
  "pieces [] w = (w = [])"
| "pieces (P # Ps) w = (\<exists>a b. w = a @ b \<and> P a \<and> pieces Ps b)"

definition hls_url :: "string \<Rightarrow> bool" where
  "hls_url u = (\<exists>stem ext. u = stem @ ext \<and> stem \<noteq> [] \<and> no_quotes stem \<and> ci_eq ext ''.m3u8'')"

definition sub_url :: "string \<Rightarrow> bool" where
  "sub_url u = (\<exists>stem ext. u = stem @ ext \<and> stem \<noteq> [] \<and> no_quotes stem
                  \<and> (ci_eq ext ''.vtt'' \<or> ci_eq ext ''.srt''))"

definition hls_fragment :: "string \<Rightarrow> string \<Rightarrow> bool" where
  "hls_fragment w u =
     (\<exists>pre. w = pre @ quoted u \<and> hls_url u
        \<and> pieces [is_text (quoted ''label''), spaces, is_text '':'', spaces,
                   is_text (quoted ''HD-2''), spaces, is_text '','', spaces,
                   is_text [CHR 0x22], one_of [''file'', ''url''], is_text [CHR 0x22],
                   spaces, is_text '':'', spaces] pre)"

definition sub_code_fragment :: "string \<Rightarrow> string \<Rightarrow> bool" where
  "sub_code_fragment w u =
     (\<exists>pre. w = pre @ quoted u \<and> sub_url u
        \<and> pieces [is_text (quoted ''srclang''), spaces, is_text '':'', spaces,
                   is_text (quoted ''en''), spaces, is_text '','', spaces,
                   is_text [CHR 0x22], one_of [''file'', ''url'', ''src''], is_text [CHR 0x22],
                   spaces, is_text '':'', spaces] pre)"

definition sub_name_fragment :: "string \<Rightarrow> string \<Rightarrow> bool" where
  "sub_name_fragment w u =
     (\<exists>pre. w = pre @ quoted u \<and> sub_url u
        \<and> pieces [is_text (quoted ''lang''), spaces, is_text '':'', spaces,
                   is_text (CHR 0x22 # ''English''), no_quotes, is_text [CHR 0x22], spaces,
                   is_text '','', spaces,
                   is_text [CHR 0x22], one_of [''file'', ''url'', ''src''], is_text [CHR 0x22],
                   spaces, is_text '':'', spaces] pre)"

fun nogroup :: "rx \<Rightarrow> bool" where
  "nogroup (Seq a b) = (nogroup a \<and> nogroup b)"
| "nogroup (Alt a b) = (nogroup a \<and> nogroup b)"
| "nogroup (Grp a) = False"
| "nogroup r = True"

definition piece :: "rx \<Rightarrow> string \<Rightarrow> bool" where
  "piece r w = lang r w None"

section \<open>Properties of the retry loop\<close>

lemma requests_after: "requests (snd (after evs r)) = requests evs + requests (snd r)"
  by (simp add: after_def requests_def)

lemma retry_loop_requests: "requests (snd (retry_loop h url n k last_exn)) \<le> n"
  by (induction n arbitrary: k last_exn)
     (auto simp: requests_after split: sum.splits, auto simp: requests_def)

lemma get_with_retries_bounded:
  "requests (snd (get_with_retries RETRIES h url)) \<le> nat (RETRIES + 1)"
  by (simp add: get_with_retries_def retry_loop_requests)


lemma retry_loop_all_raise:
  "(\<And>j. j < n \<Longrightarrow> h (k + j) url = Inl (e (k + j))) \<Longrightarrow>
   fst (retry_loop h url n k last_exn) = Inl (if n = 0 then raise_last last_exn else e (k + n - 1))"
proof (induction n arbitrary: k last_exn)
  case 0
  then show ?case by simp
next
  case (Suc n)
  have h0: "h k url = Inl (e k)" using Suc.prems[of 0] by simp
  have step: "\<And>j. j < n \<Longrightarrow> h (Suc k + j) url = Inl (e (Suc k + j))"
    using Suc.prems[of "Suc _"] by simp
  show ?case
    using Suc.IH[of "Suc k" "Some (e k)", OF step] h0
    by (cases n) (simp_all add: after_def raise_last_def)
qed

lemma get_with_retries_503_then_200:
  assumes "h 0 url = Inr r0" and "status_code r0 = 503"
    and "h 1 url = Inr r1" and "status_code r1 = 200" and "1 \<le> RETRIES"
  shows "fst (get_with_retries RETRIES h url) = Inr (resp_text r1)"
proof -
  have "nat (RETRIES + 1) = Suc (Suc (nat (RETRIES - 1)))"
    using assms(5) by simp
  then obtain m where m: "nat (RETRIES + 1) = Suc (Suc m)" ..
  show ?thesis
    using assms(1-4) by (simp add: get_with_retries_def m after_def raise_for_status_def)
qed

text \<open>
  C1. With the default \<open>RETRIES = 2\<close> and a server that answers 503 to every attempt, the
  fetch makes three requests, sleeps 0.6 s after each, and then executes \<open>raise last\<close>
  with \<open>last = None\<close>: the caller receives a \<open>TypeError\<close>, not the error of the last
  failed attempt.
\<close>

theorem get_with_retries_all_5xx_raises_TypeError:
  "get_with_retries RETRIES_default always_503 ''https://hianimez.is/watch/x?ep=1'' =
     (Inl TypeError,
      [Get ''https://hianimez.is/watch/x?ep=1'', Sleep 600,
       Get ''https://hianimez.is/watch/x?ep=1'', Sleep 600,
       Get ''https://hianimez.is/watch/x?ep=1'', Sleep 600])"
  by (simp add: get_with_retries_def RETRIES_default_def always_503_def after_def
      numeral_3_eq_3 raise_last_def)

section \<open>Properties of the domain selection\<close>

lemma pick_loop_fst:
  "fst (pick_loop h k pool) = map_option (rstrip ''/'') (first_live h k pool)"
  by (induction pool arbitrary: k) (auto simp: responds_ok_def Let_def split: sum.splits)

lemma first_live_mem: "first_live h k pool = Some b \<Longrightarrow> b \<in> set pool"
  by (induction pool arbitrary: k) (auto split: if_splits)

lemma pick_live_base_fst:
  "pool \<noteq> [] \<Longrightarrow> fst (pick_live_base pool h) = Inr (rstrip ''/'' (chosen h pool))"
  using pick_loop_fst[of h 0 pool]
  by (cases "pick_loop h 0 pool"; cases pool)
     (auto simp: pick_live_base_def chosen_def split: option.splits)

lemma chosen_mem: "pool \<noteq> [] \<Longrightarrow> chosen h pool \<in> set pool"
  by (auto simp: chosen_def first_live_mem split: option.splits)

text \<open>
  C6 (as amended). For every non-empty pool, \<open>_pick_live_base\<close> does not raise and returns,
  with its trailing slashes stripped, the first pool entry whose probe returned a status below
  500, or the first pool entry when no probe did. The result is a member of the pool
  whenever no pool entry ends in a slash.
\<close>

theorem pick_live_base_stripped_member:
  "pool \<noteq> [] \<Longrightarrow>
     fst (pick_live_base pool h) = Inr (rstrip ''/'' (chosen h pool))
     \<and> chosen h pool \<in> set pool
     \<and> ((\<forall>p \<in> set pool. rstrip ''/'' p = p) \<longrightarrow>
          (\<exists>p \<in> set pool. fst (pick_live_base pool h) = Inr p))"
  using pick_live_base_fst[of pool h] chosen_mem[of pool h] by auto

theorem pick_live_base_stripped_member_witness:
  "HIANIME_DOMAIN_POOL \<noteq> []
   \<and> map (rstrip ''/'') HIANIME_DOMAIN_POOL = HIANIME_DOMAIN_POOL
   \<and> chosen flaky HIANIME_DOMAIN_POOL = ''https://hianime.is''
   \<and> fst (pick_live_base HIANIME_DOMAIN_POOL flaky) = Inr ''https://hianime.is''"
proof -
  have ne: "HIANIME_DOMAIN_POOL \<noteq> []"
    by (simp add: HIANIME_DOMAIN_POOL_def)
  have ns: "\<forall>p \<in> set HIANIME_DOMAIN_POOL. rstrip ''/'' p = p"
    by (simp add: HIANIME_DOMAIN_POOL_def rstrip_def)
  have ch: "chosen flaky HIANIME_DOMAIN_POOL = ''https://hianime.is''"
    by (simp add: chosen_def HIANIME_DOMAIN_POOL_def flaky_def responds_ok_def)
  have mp: "map (rstrip ''/'') HIANIME_DOMAIN_POOL = HIANIME_DOMAIN_POOL"
    using ns by (simp add: map_idI)
  have res: "fst (pick_live_base HIANIME_DOMAIN_POOL flaky) = Inr ''https://hianime.is''"
    using ns ch pick_live_base_stripped_member[OF ne, of flaky]
    by (simp add: rstrip_def)
  show ?thesis
    using ne mp ch res by simp
qed

text \<open>A pool whose only entry ends in a slash: the result is not a member of the pool.\<close>

theorem pick_live_base_not_member:
  "fst (pick_live_base [''https://hianimez.is/''] all_ok) = Inr ''https://hianimez.is''
   \<and> ''https://hianimez.is'' \<notin> set [''https://hianimez.is/'']"
  by (simp add: pick_live_base_def all_ok_def rstrip_def)



section \<open>Properties of URL joining and authority resolution\<close>

lemmas url_defs = urljoin_def urlparse_def urlsplit_def split_scheme_def find_char_def split1_def
  splitnetloc_def bracketed_host_def splitparams_def urlunparse_def urlunsplit_def
  filter_middle_def uses_relative_def uses_netloc_def uses_params_def scheme_chars_def
  C0_CONTROL_OR_SPACE_def UNSAFE_URL_BYTES_TO_REMOVE_def is_ascii_upper_def is_ascii_lower_def
  lower_char_def Let_def

text \<open>
  C5. \<open>_abs\<close> joins per the URL-join rules of the standard library: a rooted path replaces
  the path of the base, and a \<open>..\<close> segment removes the segment before it.
\<close>

theorem abs_url_examples:
  "abs_url vb ''https://h.example'' ''/watch/1'' = Inr ''https://h.example/watch/1''
   \<and> abs_url vb ''https://h.example/a/'' ''../b'' = Inr ''https://h.example/b''"
  by (simp add: abs_url_def url_defs)



lemma urlsplit_reparse:
  assumes sch: "sch \<noteq> []" "is_ascii_upper (hd sch) \<or> is_ascii_lower (hd sch)"
      "set sch \<subseteq> set scheme_chars"
    and nl: "nl \<noteq> []" "\<forall>c \<in> set nl. c \<notin> set ''/?#'' \<and> c \<notin> set UNSAFE_URL_BYTES_TO_REMOVE"
      "bracket_ok vb nl"
    and rest: "rest = [] \<or> hd rest \<in> set ''/?#''"
  shows "\<exists>sr. urlsplit vb (sch @ ''://'' @ nl @ rest) d = Inr sr
            \<and> scheme sr = map lower_char sch \<and> netloc sr = nl"
proof -
  define rest' where "rest' = filter (\<lambda>c. c \<notin> set UNSAFE_URL_BYTES_TO_REMOVE) rest"
  have r': "rest' = [] \<or> hd rest' \<in> set ''/?#''"
  proof (cases rest)
    case Nil then show ?thesis by (simp add: rest'_def)
  next
    case (Cons a as)
    then have "a \<in> set ''/?#''" using rest by simp
    then have "a \<notin> set UNSAFE_URL_BYTES_TO_REMOVE" by (auto simp: UNSAFE_URL_BYTES_TO_REMOVE_def)
    then show ?thesis using Cons \<open>a \<in> set ''/?#''\<close> by (simp add: rest'_def)
  qed
  have hdnc: "\<not> C0_CONTROL_OR_SPACE (hd sch)"
    using sch(2) by (auto simp: C0_CONTROL_OR_SPACE_def is_ascii_upper_def is_ascii_lower_def
        less_eq_char_def)
  have dw: "dropWhile C0_CONTROL_OR_SPACE (sch @ ''://'' @ nl @ rest) = sch @ ''://'' @ nl @ rest"
    using sch(1) hdnc by (cases sch) auto
  have schsafe: "filter (\<lambda>c. c \<notin> set UNSAFE_URL_BYTES_TO_REMOVE) sch = sch"
    using sch(3) by (intro filter_True) (auto simp: UNSAFE_URL_BYTES_TO_REMOVE_def scheme_chars_def)
  have nlsafe: "filter (\<lambda>c. c \<notin> set UNSAFE_URL_BYTES_TO_REMOVE) nl = nl"
    using nl(2) by (intro filter_True) auto
  have url1: "filter (\<lambda>c. c \<notin> set UNSAFE_URL_BYTES_TO_REMOVE)
                (dropWhile C0_CONTROL_OR_SPACE (sch @ ''://'' @ nl @ rest)) = sch @ ''://'' @ nl @ rest'"
    unfolding dw using schsafe nlsafe
    by (simp add: rest'_def UNSAFE_URL_BYTES_TO_REMOVE_def)
  have nocolon: "CHR '':'' \<notin> set sch"
    using sch(3) by (auto simp: scheme_chars_def)
  have tw: "takeWhile (\<lambda>x. x \<noteq> CHR '':'') (sch @ ''://'' @ nl @ rest') = sch"
    using nocolon by (auto simp: takeWhile_tail takeWhile_eq_all_conv)
  have fc: "find_char CHR '':'' (sch @ ''://'' @ nl @ rest') = Some (length sch)"
    unfolding find_char_def tw by simp
  have hd1: "hd (sch @ ''://'' @ nl @ rest') = hd sch" using sch(1) by simp
  have allsc: "\<forall>c \<in> set (take (length sch) (sch @ ''://'' @ nl @ rest')). c \<in> set scheme_chars"
    using sch(3) by auto
  have ss: "split_scheme s1 (sch @ ''://'' @ nl @ rest') = (map lower_char sch, ''//'' @ nl @ rest')" for s1
    unfolding split_scheme_def using fc hd1 allsc sch(1,2) by simp
  have tn: "takeWhile (\<lambda>c. c \<notin> set ''/?#'') (nl @ rest') = nl"
  proof (cases rest')
    case Nil then show ?thesis using nl(2) by (simp add: takeWhile_eq_all_conv)
  next
    case (Cons a as)
    then have "a \<in> set ''/?#''" using r' by simp
    then show ?thesis using Cons nl(2) by (simp add: takeWhile_tail)
  qed
  show ?thesis
    unfolding urlsplit_def url1 Let_def ss
    using tn nl(3)
    by (simp add: splitnetloc_def bracket_ok_def case_prod_beta)
qed


text \<open>A string of the shape \<open>scheme://authority\<close>, followed by nothing or by a path, a query
  or a fragment, is absolute; its authority is resolved without a probe.\<close>

lemma base_of_absolute_form:
  assumes "sch \<noteq> []" "is_ascii_upper (hd sch) \<or> is_ascii_lower (hd sch)"
      "set sch \<subseteq> set scheme_chars"
    and "nl \<noteq> []" "\<forall>c \<in> set nl. c \<notin> set ''/?#[]'' \<and> c \<notin> set UNSAFE_URL_BYTES_TO_REMOVE"
    and "rest = [] \<or> hd rest \<in> set ''/?#''"
  shows "base_of vb pool h (sch @ ''://'' @ nl @ rest) = (Inr (map lower_char sch @ ''://'' @ nl), [])"
proof -
  have nb: "\<forall>c \<in> set nl. c \<notin> set ''/?#'' \<and> c \<notin> set UNSAFE_URL_BYTES_TO_REMOVE"
    and bo: "bracket_ok vb nl"
    using assms(5) by (auto simp: bracket_ok_def)
  obtain sr where sr: "urlsplit vb (sch @ ''://'' @ nl @ rest) '''' = Inr sr"
      "scheme sr = map lower_char sch" "netloc sr = nl"
    using urlsplit_reparse[OF assms(1-4) nb bo assms(6)] by blast
  show ?thesis
    using sr assms(1,4)
    by (simp add: base_of_def urlparse_def Let_def split: prod.splits)
qed

text \<open>
  C8. On a URL in which the parser finds a scheme and a network location, \<open>_base_of\<close>
  returns \<open>scheme://netloc\<close> and makes no request; on every other input, a URL the parser
  rejects included, it returns what \<open>_pick_live_base\<close> returns.
\<close>

theorem base_of_absolute_or_probe:
  "(is_absolute vb url \<longrightarrow>
      (\<exists>p. urlparse vb url '''' = Inr p
           \<and> base_of vb pool h url = (Inr (scheme p @ ''://'' @ netloc p), [])))
   \<and> (\<not> is_absolute vb url \<longrightarrow> base_of vb pool h url = pick_live_base pool h)"
  by (auto simp: is_absolute_def base_of_def split: sum.splits)

theorem base_of_absolute_or_probe_witness:
  "is_absolute any_host ''https://h.example/x''
   \<and> base_of any_host HIANIME_DOMAIN_POOL flaky ''https://h.example/x'' = (Inr ''https://h.example'', [])
   \<and> \<not> is_absolute any_host ''/watch/one-piece-100''
   \<and> base_of any_host HIANIME_DOMAIN_POOL flaky ''/watch/one-piece-100''
       = pick_live_base HIANIME_DOMAIN_POOL flaky
   \<and> pick_live_base HIANIME_DOMAIN_POOL flaky
       = (Inr ''https://hianime.is'',
          [Get ''https://hianimez.is'', Get ''https://hianimez.to'', Get ''https://hianime.is''])"
proof -
  have a: "is_absolute any_host ''https://h.example/x''"
    by (simp add: is_absolute_def url_defs)
  have p: "urlparse any_host ''https://h.example/x'' '''' =
      Inr \<lparr>scheme = ''https'', netloc = ''h.example'', path = ''/x'', query = '''',
            fragment = '''', params = ''''\<rparr>"
    by (simp add: url_defs)
  have b: "base_of any_host HIANIME_DOMAIN_POOL flaky ''https://h.example/x'' = (Inr ''https://h.example'', [])"
    using a p base_of_absolute_or_probe[of any_host "''https://h.example/x''" HIANIME_DOMAIN_POOL flaky]
    by auto
  have n: "\<not> is_absolute any_host ''/watch/one-piece-100''"
    by (simp add: is_absolute_def url_defs)
  have c: "base_of any_host HIANIME_DOMAIN_POOL flaky ''/watch/one-piece-100''
       = pick_live_base HIANIME_DOMAIN_POOL flaky"
    using n base_of_absolute_or_probe[of any_host "''/watch/one-piece-100''" HIANIME_DOMAIN_POOL flaky]
    by blast
  have d: "pick_live_base HIANIME_DOMAIN_POOL flaky
       = (Inr ''https://hianime.is'',
          [Get ''https://hianimez.is'', Get ''https://hianimez.to'', Get ''https://hianime.is''])"
    by (simp add: pick_live_base_def HIANIME_DOMAIN_POOL_def flaky_def rstrip_def)
  show ?thesis using a b n c d by simp
qed


section \<open>Properties of the matcher\<close>

lemma ci_eq_length: "ci_eq a b \<Longrightarrow> length a = length b"
  unfolding ci_eq_def by (metis length_map)

lemma run_prefix_iff:
  "(\<exists>n. lo \<le> n \<and> n \<le> length (takeWhile p s) \<and> rest = drop n s)
     \<longleftrightarrow> (\<exists>w. s = w @ rest \<and> lo \<le> length w \<and> (\<forall>c \<in> set w. p c))"
proof
  assume "\<exists>n. lo \<le> n \<and> n \<le> length (takeWhile p s) \<and> rest = drop n s"
  then obtain n where n: "lo \<le> n" "n \<le> length (takeWhile p s)" "rest = drop n s" by blast
  have "take n s = take n (takeWhile p s)"
    using n(2) by (metis takeWhile_dropWhile_id take_append diff_is_0_eq take_0 append_Nil2)
  then have "\<forall>c \<in> set (take n s). p c"
    by (metis in_set_takeD set_takeWhileD)
  moreover have "length (take n s) = n"
    using n(2) by (metis length_take min.absorb2 le_trans length_takeWhile_le)
  ultimately show "\<exists>w. s = w @ rest \<and> lo \<le> length w \<and> (\<forall>c \<in> set w. p c)"
    using n(1,3) by (intro exI[of _ "take n s"]) simp
next
  assume "\<exists>w. s = w @ rest \<and> lo \<le> length w \<and> (\<forall>c \<in> set w. p c)"
  then obtain w where w: "s = w @ rest" "lo \<le> length w" "\<forall>c \<in> set w. p c" by blast
  have "takeWhile p s = w @ takeWhile p rest"
    using w(1,3) by (simp add: takeWhile_append2)
  then show "\<exists>n. lo \<le> n \<and> n \<le> length (takeWhile p s) \<and> rest = drop n s"
    using w(1,2) by (intro exI[of _ "length w"]) simp
qed

lemma set_run:
  "set (map (\<lambda>n. (drop n s, None)) (rev [lo ..< Suc k])) = {(drop n s, None) | n. lo \<le> n \<and> n \<le> k}"
  by auto

lemma rmatch_lang:
  "(rest, g) \<in> set (rmatch r s) \<longleftrightarrow> (\<exists>w. s = w @ rest \<and> lang r w g)"
proof (induction r arbitrary: s rest g)
  case (Lit l)
  show ?case
  proof
    assume "(rest, g) \<in> set (rmatch (Lit l) s)"
    then have c: "ci_eq (take (length l) s) l" and r: "rest = drop (length l) s" and g: "g = None"
      by (auto split: if_splits)
    show "\<exists>w. s = w @ rest \<and> lang (Lit l) w g"
      using c r g by (intro exI[of _ "take (length l) s"]) simp
  next
    assume "\<exists>w. s = w @ rest \<and> lang (Lit l) w g"
    then obtain w where w: "s = w @ rest" "ci_eq w l" "g = None" by auto
    have "length w = length l" using w(2) by (rule ci_eq_length)
    then show "(rest, g) \<in> set (rmatch (Lit l) s)"
      using w by simp
  qed
next
  case (Star p)
  have "(rest, g) \<in> set (rmatch (Star p) s)
      \<longleftrightarrow> g = None \<and> (\<exists>n. 0 \<le> n \<and> n \<le> length (takeWhile p s) \<and> rest = drop n s)"
    unfolding rmatch.simps set_run by auto
  then show ?case unfolding run_prefix_iff by auto
next
  case (Plus p)
  have "(rest, g) \<in> set (rmatch (Plus p) s)
      \<longleftrightarrow> g = None \<and> (\<exists>n. 1 \<le> n \<and> n \<le> length (takeWhile p s) \<and> rest = drop n s)"
    unfolding rmatch.simps set_run by auto
  then show ?case unfolding run_prefix_iff by (auto simp: Suc_le_eq)
next
  case (Opt p)
  show ?case
  proof (cases s)
    case Nil
    then show ?thesis by auto
  next
    case (Cons a as)
    then show ?thesis by (auto simp: Cons_eq_append_conv)
  qed
next
  case (Seq a b)
  show ?case
  proof
    assume "(rest, g) \<in> set (rmatch (Seq a b) s)"
    then obtain s1 g1 g2 where 1: "(s1, g1) \<in> set (rmatch a s)" and 2: "(rest, g2) \<in> set (rmatch b s1)"
      and g: "g = (case g2 of None \<Rightarrow> g1 | Some x \<Rightarrow> Some x)"
      by auto
    from 1 obtain w1 where w1: "s = w1 @ s1" "lang a w1 g1" using Seq.IH(1) by blast
    from 2 obtain w2 where w2: "s1 = w2 @ rest" "lang b w2 g2" using Seq.IH(2) by blast
    show "\<exists>w. s = w @ rest \<and> lang (Seq a b) w g"
      using w1 w2 g by (intro exI[of _ "w1 @ w2"]) auto
  next
    assume "\<exists>w. s = w @ rest \<and> lang (Seq a b) w g"
    then obtain w1 w2 g1 g2 where w: "s = (w1 @ w2) @ rest" "lang a w1 g1" "lang b w2 g2"
      "g = (case g2 of None \<Rightarrow> g1 | Some x \<Rightarrow> Some x)" by auto
    have 1: "(w2 @ rest, g1) \<in> set (rmatch a s)" using w(1,2) Seq.IH(1) by auto
    have 2: "(rest, g2) \<in> set (rmatch b (w2 @ rest))" using w(3) Seq.IH(2) by auto
    show "(rest, g) \<in> set (rmatch (Seq a b) s)"
      using 1 2 w(4) by (force simp: image_iff)
  qed
next
  case (Alt a b)
  then show ?case by auto
next
  case (Grp a)
  show ?case
  proof
    assume "(rest, g) \<in> set (rmatch (Grp a) s)"
    then obtain g' where 1: "(rest, g') \<in> set (rmatch a s)"
      and g: "g = Some (take (length s - length rest) s)" by auto
    from 1 obtain w where w: "s = w @ rest" "lang a w g'" using Grp.IH by blast
    show "\<exists>w. s = w @ rest \<and> lang (Grp a) w g"
      using w g by (intro exI[of _ w]) auto
  next
    assume "\<exists>w. s = w @ rest \<and> lang (Grp a) w g"
    then obtain w g' where w: "s = w @ rest" "lang a w g'" "g = Some w" by auto
    have "(rest, g') \<in> set (rmatch a s)" using w(1,2) Grp.IH by blast
    then show "(rest, g) \<in> set (rmatch (Grp a) s)"
      using w(1,3) by (force simp: image_iff)
  qed
qed

lemma rmatch_Nil_iff: "rmatch r s = [] \<longleftrightarrow> (\<forall>w rest g. s = w @ rest \<longrightarrow> \<not> lang r w g)"
proof -
  have "rmatch r s = [] \<longleftrightarrow> (\<forall>rest g. (rest, g) \<notin> set (rmatch r s))"
    by (cases "rmatch r s") auto
  then show ?thesis unfolding rmatch_lang by blast
qed

lemma re_search_None_iff: "re_search r s = None \<longleftrightarrow> (\<forall>pre w g. \<not> occurs r s pre w g)"
proof (induction s)
  case Nil
  show ?case
    using rmatch_Nil_iff[of r "[]"] by (auto simp: occurs_def split: list.splits)
next
  case (Cons c cs)
  have split: "(\<forall>pre w g. \<not> occurs r (c # cs) pre w g) \<longleftrightarrow>
        rmatch r (c # cs) = [] \<and> (\<forall>pre w g. \<not> occurs r cs pre w g)"
  proof
    assume a: "\<forall>pre w g. \<not> occurs r (c # cs) pre w g"
    have "rmatch r (c # cs) = []"
      unfolding rmatch_Nil_iff using a[rule_format, of "[]"] by (auto simp: occurs_def)
    moreover have "\<not> occurs r cs pre w g" for pre w g
      using a[rule_format, of "c # pre" w g] by (auto simp: occurs_def)
    ultimately show "rmatch r (c # cs) = [] \<and> (\<forall>pre w g. \<not> occurs r cs pre w g)" by blast
  next
    assume a: "rmatch r (c # cs) = [] \<and> (\<forall>pre w g. \<not> occurs r cs pre w g)"
    show "\<forall>pre w g. \<not> occurs r (c # cs) pre w g"
    proof (intro allI notI)
      fix pre w g assume o: "occurs r (c # cs) pre w g"
      then obtain rest where r: "c # cs = pre @ w @ rest" "lang r w g" by (auto simp: occurs_def)
      show False
      proof (cases pre)
        case Nil
        then show ?thesis using r a rmatch_Nil_iff[of r "c # cs"] by auto
      next
        case (Cons p ps)
        then have "occurs r cs ps w g" using r by (auto simp: occurs_def)
        then show ?thesis using a by blast
      qed
    qed
  qed
  show ?case
    unfolding split using Cons.IH by (auto split: list.splits)
qed




section \<open>Properties of the episode list\<close>



























section \<open>Properties of the search\<close>


















section \<open>Properties of the patterns\<close>

lemma lang_SeqE:
  assumes "lang (Seq a b) w g"
  obtains w1 w2 g1 g2 where "w = w1 @ w2" "lang a w1 g1" "lang b w2 g2"
    "g = (case g2 of None \<Rightarrow> g1 | Some x \<Rightarrow> Some x)"
proof -
  from assms have "\<exists>w1 w2 g1 g2. w = w1 @ w2 \<and> lang a w1 g1 \<and> lang b w2 g2
        \<and> g = (case g2 of None \<Rightarrow> g1 | Some x \<Rightarrow> Some x)"
    by (simp only: lang.simps)
  then show thesis by (elim exE conjE) (rule that)
qed

lemma lang_SeqI:
  assumes "lang a w1 g1" "lang b w2 g2"
  shows "lang (Seq a b) (w1 @ w2) (case g2 of None \<Rightarrow> g1 | Some x \<Rightarrow> Some x)"
proof -
  have "\<exists>v1 v2 h1 h2. w1 @ w2 = v1 @ v2 \<and> lang a v1 h1 \<and> lang b v2 h2
        \<and> (case g2 of None \<Rightarrow> g1 | Some x \<Rightarrow> Some x) = (case h2 of None \<Rightarrow> h1 | Some x \<Rightarrow> Some x)"
    using assms by (intro exI[of _ w1] exI[of _ w2] exI[of _ g1] exI[of _ g2] conjI refl)
  then show ?thesis by (simp only: lang.simps)
qed

lemma lang_Lit_iff: "lang (Lit l) w g \<longleftrightarrow> ci_eq w l \<and> g = None"
  by (simp only: lang.simps)

lemma lang_Grp_iff: "lang (Grp a) w g \<longleftrightarrow> (\<exists>g'. lang a w g') \<and> g = Some w"
  by (simp only: lang.simps)

lemma nogroup_None: "nogroup r \<Longrightarrow> lang r w g \<Longrightarrow> g = None"
proof (induction r arbitrary: w g)
  case (Seq r1 r2)
  from Seq.prems(2) obtain w1 w2 g1 g2 where x: "lang r1 w1 g1" "lang r2 w2 g2"
      "g = (case g2 of None \<Rightarrow> g1 | Some x \<Rightarrow> Some x)"
    by (rule lang_SeqE)
  have n: "nogroup r1" "nogroup r2" using Seq.prems(1) by simp_all
  have "g1 = None" using Seq.IH(1)[OF n(1) x(1)] .
  moreover have "g2 = None" using Seq.IH(2)[OF n(2) x(2)] .
  ultimately show ?case using x(3) by simp
next
  case (Alt r1 r2)
  have n: "nogroup r1" "nogroup r2" using Alt.prems(1) by simp_all
  have "lang r1 w g \<or> lang r2 w g" using Alt.prems(2) by (simp only: lang.simps)
  then show ?case using Alt.IH(1)[OF n(1)] Alt.IH(2)[OF n(2)] by blast
next
  case (Grp r)
  then show ?case by simp
qed simp_all

lemma seqs_Cons: "rs \<noteq> [] \<Longrightarrow> seqs (r # rs) = Seq r (seqs rs)"
  by (cases rs) simp_all

lemma lang_tail:
  "lang (seqs [Lit a, Grp G, Lit b]) w g \<longleftrightarrow>
     (\<exists>e1 u e2. w = e1 @ u @ e2 \<and> ci_eq e1 a \<and> ci_eq e2 b \<and> (\<exists>g'. lang G u g') \<and> g = Some u)"
proof
  assume "lang (seqs [Lit a, Grp G, Lit b]) w g"
  then have "lang (Seq (Lit a) (Seq (Grp G) (Lit b))) w g" by (simp only: seqs.simps)
  then obtain e1 w2 g1 g2 where a: "w = e1 @ w2" "lang (Lit a) e1 g1" "lang (Seq (Grp G) (Lit b)) w2 g2"
      "g = (case g2 of None \<Rightarrow> g1 | Some x \<Rightarrow> Some x)"
    by (rule lang_SeqE)
  from a(3) obtain u e2 h1 h2 where b: "w2 = u @ e2" "lang (Grp G) u h1" "lang (Lit b) e2 h2"
      "g2 = (case h2 of None \<Rightarrow> h1 | Some x \<Rightarrow> Some x)"
    by (rule lang_SeqE)
  have c1: "ci_eq e1 a" using a(2) by (simp only: lang_Lit_iff)
  have c2: "ci_eq e2 b" and c3: "h2 = None" using b(3) by (simp_all only: lang_Lit_iff)
  have c4: "\<exists>g'. lang G u g'" and c5: "h1 = Some u" using b(2) by (simp_all only: lang_Grp_iff)
  have "g = Some u" using a(4) b(4) c3 c5 by simp
  moreover have "w = e1 @ u @ e2" using a(1) b(1) by simp
  ultimately show "\<exists>e1 u e2. w = e1 @ u @ e2 \<and> ci_eq e1 a \<and> ci_eq e2 b \<and> (\<exists>g'. lang G u g') \<and> g = Some u"
    using c1 c2 c4 by (intro exI[of _ e1] exI[of _ u] exI[of _ e2] conjI)
next
  assume "\<exists>e1 u e2. w = e1 @ u @ e2 \<and> ci_eq e1 a \<and> ci_eq e2 b \<and> (\<exists>g'. lang G u g') \<and> g = Some u"
  then obtain e1 u e2 g' where x: "w = e1 @ u @ e2" "ci_eq e1 a" "ci_eq e2 b" "lang G u g'" "g = Some u"
    by (elim exE conjE)
  have 1: "lang (Grp G) u (Some u)" using x(4) by (simp only: lang_Grp_iff) (intro conjI exI refl)
  have 2: "lang (Lit b) e2 None" using x(3) by (simp only: lang_Lit_iff simp_thms)
  have 3: "lang (Seq (Grp G) (Lit b)) (u @ e2) (Some u)"
    using lang_SeqI[OF 1 2] by (simp only: option.case)
  have 4: "lang (Lit a) e1 None" using x(2) by (simp only: lang_Lit_iff simp_thms)
  have "lang (Seq (Lit a) (Seq (Grp G) (Lit b))) (e1 @ u @ e2) (Some u)"
    using lang_SeqI[OF 4 3] by (simp only: option.case)
  then show "lang (seqs [Lit a, Grp G, Lit b]) w g" unfolding x(1,5) by (simp only: seqs.simps)
qed

lemma piecesE:
  assumes "pieces (P # Ps) w"
  obtains a b where "w = a @ b" "P a" "pieces Ps b"
  using assms by (simp only: pieces.simps) (elim exE conjE)

lemma piecesI: "P a \<Longrightarrow> pieces Ps b \<Longrightarrow> pieces (P # Ps) (a @ b)"
  by (simp only: pieces.simps) (intro exI[of _ a] exI[of _ b] conjI refl)

lemma lang_seqs_tail:
  assumes "\<forall>r \<in> set rs. nogroup r"
  shows "lang (seqs (rs @ [Lit a, Grp G, Lit b])) w g \<longleftrightarrow>
     (\<exists>pre e1 u e2. w = pre @ e1 @ u @ e2 \<and> pieces (map piece rs) pre \<and> ci_eq e1 a \<and> ci_eq e2 b
        \<and> (\<exists>g'. lang G u g') \<and> g = Some u)"
  using assms
proof (induction rs arbitrary: w g)
  case Nil
  have "pieces (map piece []) pre \<longleftrightarrow> pre = []" for pre by simp
  then show ?case using lang_tail[of a G b w g] by simp
next
  case (Cons r rs)
  have ng: "nogroup r" and ngs: "\<forall>r \<in> set rs. nogroup r" using Cons.prems by simp_all
  have s: "seqs ((r # rs) @ [Lit a, Grp G, Lit b]) = Seq r (seqs (rs @ [Lit a, Grp G, Lit b]))"
    using seqs_Cons[of "rs @ [Lit a, Grp G, Lit b]" r] by simp
  have m: "map piece (r # rs) = piece r # map piece rs" by simp
  note IH = Cons.IH[OF ngs]
  show ?case
  proof
    assume "lang (seqs ((r # rs) @ [Lit a, Grp G, Lit b])) w g"
    then have "lang (Seq r (seqs (rs @ [Lit a, Grp G, Lit b]))) w g" by (simp only: s)
    then obtain w1 w2 g1 g2 where w: "w = w1 @ w2" "lang r w1 g1"
        "lang (seqs (rs @ [Lit a, Grp G, Lit b])) w2 g2"
        "g = (case g2 of None \<Rightarrow> g1 | Some x \<Rightarrow> Some x)"
      by (rule lang_SeqE)
    have g1: "g1 = None" using nogroup_None[OF ng w(2)] .
    from w(3) have "\<exists>pre e1 u e2. w2 = pre @ e1 @ u @ e2 \<and> pieces (map piece rs) pre \<and> ci_eq e1 a
        \<and> ci_eq e2 b \<and> (\<exists>g'. lang G u g') \<and> g2 = Some u"
      by (simp only: IH)
    then obtain pre e1 u e2 where p: "w2 = pre @ e1 @ u @ e2" "pieces (map piece rs) pre" "ci_eq e1 a"
        "ci_eq e2 b" "\<exists>g'. lang G u g'" "g2 = Some u"
      by blast
    have "piece r w1" using w(2) g1 by (simp add: piece_def)
    then have pp: "pieces (map piece (r # rs)) (w1 @ pre)"
      unfolding m using p(2) by (rule piecesI)
    have ww: "w = (w1 @ pre) @ e1 @ u @ e2" using w(1) p(1) by simp
    have gg: "g = Some u" using w(4) p(6) by simp
    show "\<exists>pre e1 u e2. w = pre @ e1 @ u @ e2 \<and> pieces (map piece (r # rs)) pre \<and> ci_eq e1 a
        \<and> ci_eq e2 b \<and> (\<exists>g'. lang G u g') \<and> g = Some u"
      using ww pp p(3,4,5) gg by (intro exI[of _ "w1 @ pre"] exI[of _ e1] exI[of _ u] exI[of _ e2] conjI)
  next
    assume "\<exists>pre e1 u e2. w = pre @ e1 @ u @ e2 \<and> pieces (map piece (r # rs)) pre \<and> ci_eq e1 a
        \<and> ci_eq e2 b \<and> (\<exists>g'. lang G u g') \<and> g = Some u"
    then obtain pre e1 u e2 where p: "w = pre @ e1 @ u @ e2" "pieces (map piece (r # rs)) pre"
        "ci_eq e1 a" "ci_eq e2 b" "\<exists>g'. lang G u g'" "g = Some u"
      by blast
    from p(2) have "pieces (piece r # map piece rs) pre" by (simp only: m)
    then obtain w1 pre' where q: "pre = w1 @ pre'" "piece r w1" "pieces (map piece rs) pre'"
      by (rule piecesE)
    have q2: "lang r w1 None" using q(2) by (simp add: piece_def)
    have "\<exists>pre e1' u' e2'. pre' @ e1 @ u @ e2 = pre @ e1' @ u' @ e2' \<and> pieces (map piece rs) pre
        \<and> ci_eq e1' a \<and> ci_eq e2' b \<and> (\<exists>g'. lang G u' g') \<and> Some u = Some u'"
      using q(3) p(3,4,5) by (intro exI[of _ pre'] exI[of _ e1] exI[of _ u] exI[of _ e2] conjI refl)
    then have t: "lang (seqs (rs @ [Lit a, Grp G, Lit b])) (pre' @ e1 @ u @ e2) (Some u)"
      by (simp only: IH)
    have "lang (Seq r (seqs (rs @ [Lit a, Grp G, Lit b]))) (w1 @ pre' @ e1 @ u @ e2) (Some u)"
      using lang_SeqI[OF q2 t] by (simp only: option.case)
    then show "lang (seqs ((r # rs) @ [Lit a, Grp G, Lit b])) w g"
      unfolding s using q(1) p(1,6) by simp
  qed
qed

lemma lower_char_quote: "lower_char a = CHR 0x22 \<longleftrightarrow> a = CHR 0x22"
proof (cases "is_ascii_upper a")
  case True
  have r: "65 \<le> (of_char a :: nat)" "(of_char a :: nat) \<le> 90"
    using True by (simp_all add: is_ascii_upper_def less_eq_char_def)
  have "lower_char a \<noteq> CHR 0x22"
  proof
    assume "lower_char a = CHR 0x22"
    then have "char_of (of_char a + (32::nat)) = CHR 0x22" using True by (simp add: lower_char_def)
    then have "of_char (char_of (of_char a + (32::nat))) = (of_char (CHR 0x22) :: nat)" by simp
    then have "(of_char a + 32) mod 256 = (34::nat)" by simp
    moreover have "(of_char a + 32) mod 256 = (of_char a + 32 :: nat)" using r by simp
    ultimately show False using r by linarith
  qed
  moreover have "a \<noteq> CHR 0x22" using r by auto
  ultimately show ?thesis by simp
next
  case False
  then show ?thesis by (simp add: lower_char_def)
qed

lemma ci_eq_quote: "ci_eq e [CHR 0x22] \<longleftrightarrow> e = [CHR 0x22]"
proof -
  have q: "lower_char (CHR 0x22) = CHR 0x22" by (simp add: lower_char_def is_ascii_upper_def)
  show ?thesis
    by (cases e) (simp_all add: ci_eq_def q lower_char_quote)
qed

lemma piece_simps:
  "piece (Lit l) = is_text l"
  "piece ws = spaces"
  "piece (Star not_quote) = no_quotes"
  "piece (Alt (Lit a) (Lit b)) = one_of [a, b]"
  "piece (Alt (Lit a) (Alt (Lit b) (Lit c))) = one_of [a, b, c]"
  by (simp_all add: piece_def is_text_def ws_def spaces_def no_quotes_def not_quote_def one_of_def
      fun_eq_iff)

lemma lang_Plus_not_quote: "lang (Plus not_quote) w g \<longleftrightarrow> w \<noteq> [] \<and> no_quotes w \<and> g = None"
  by (simp add: no_quotes_def not_quote_def)

lemma lang_hls_group: "(\<exists>g'. lang (Seq (Plus not_quote) (Lit ''.m3u8'')) u g') \<longleftrightarrow> hls_url u"
proof
  assume "\<exists>g'. lang (Seq (Plus not_quote) (Lit ''.m3u8'')) u g'"
  then obtain g' where "lang (Seq (Plus not_quote) (Lit ''.m3u8'')) u g'" ..
  then obtain stem ext g1 g2 where x: "u = stem @ ext" "lang (Plus not_quote) stem g1"
      "lang (Lit ''.m3u8'') ext g2"
    by (rule lang_SeqE)
  have "stem \<noteq> []" "no_quotes stem" using x(2) unfolding lang_Plus_not_quote by blast+
  moreover have "ci_eq ext ''.m3u8''" using x(3) by (simp only: lang_Lit_iff)
  ultimately show "hls_url u"
    unfolding hls_url_def using x(1) by (intro exI[of _ stem] exI[of _ ext] conjI)
next
  assume "hls_url u"
  then obtain stem ext where x: "u = stem @ ext" "stem \<noteq> []" "no_quotes stem" "ci_eq ext ''.m3u8''"
    unfolding hls_url_def by blast
  have 1: "lang (Plus not_quote) stem None" using x(2,3) by (simp only: lang_Plus_not_quote simp_thms)
  have 2: "lang (Lit ''.m3u8'') ext None" using x(4) by (simp only: lang_Lit_iff simp_thms)
  have "lang (Seq (Plus not_quote) (Lit ''.m3u8'')) (stem @ ext) None"
    using lang_SeqI[OF 1 2] by (simp only: option.case)
  then show "\<exists>g'. lang (Seq (Plus not_quote) (Lit ''.m3u8'')) u g'"
    unfolding x(1) ..
qed

lemma ci_eq_Cons: "ci_eq (x # xs) (y # ys) \<longleftrightarrow> lower_char x = lower_char y \<and> ci_eq xs ys"
  by (simp add: ci_eq_def)

lemma ci_eq_append: "ci_eq a b \<Longrightarrow> ci_eq c d \<Longrightarrow> ci_eq (a @ c) (b @ d)"
  by (simp add: ci_eq_def)

lemma lang_ext: "(\<exists>g. lang (Seq (Lit ''.'') (Alt (Lit ''vtt'') (Lit ''srt''))) e g)
     \<longleftrightarrow> ci_eq e ''.vtt'' \<or> ci_eq e ''.srt''"
proof
  assume "\<exists>g. lang (Seq (Lit ''.'') (Alt (Lit ''vtt'') (Lit ''srt''))) e g"
  then obtain g where "lang (Seq (Lit ''.'') (Alt (Lit ''vtt'') (Lit ''srt''))) e g" ..
  then obtain d x g1 g2 where x: "e = d @ x" "lang (Lit ''.'') d g1"
      "lang (Alt (Lit ''vtt'') (Lit ''srt'')) x g2"
    by (rule lang_SeqE)
  have d: "ci_eq d ''.''" using x(2) by (simp only: lang_Lit_iff)
  have "ci_eq x ''vtt'' \<or> ci_eq x ''srt''" using x(3) by auto
  then show "ci_eq e ''.vtt'' \<or> ci_eq e ''.srt''"
    unfolding x(1) using ci_eq_append[OF d, of x "''vtt''"] ci_eq_append[OF d, of x "''srt''"] by auto
next
  assume a: "ci_eq e ''.vtt'' \<or> ci_eq e ''.srt''"
  then obtain d x where e: "e = d # x" by (cases e) (auto simp: ci_eq_def)
  have d: "ci_eq [d] ''.''" and x: "ci_eq x ''vtt'' \<or> ci_eq x ''srt''"
    using a unfolding e by (auto simp: ci_eq_def)
  have 1: "lang (Lit ''.'') [d] None" using d by (simp only: lang_Lit_iff simp_thms)
  have 2: "lang (Alt (Lit ''vtt'') (Lit ''srt'')) x None" using x by simp
  have "lang (Seq (Lit ''.'') (Alt (Lit ''vtt'') (Lit ''srt''))) ([d] @ x) None"
    using lang_SeqI[OF 1 2] by (simp only: option.case)
  then show "\<exists>g. lang (Seq (Lit ''.'') (Alt (Lit ''vtt'') (Lit ''srt''))) e g"
    unfolding e by auto
qed

lemma lang_sub_group:
  "(\<exists>g'. lang (seqs [Plus not_quote, Lit ''.'', Alt (Lit ''vtt'') (Lit ''srt'')]) u g') \<longleftrightarrow> sub_url u"
proof
  assume "\<exists>g'. lang (seqs [Plus not_quote, Lit ''.'', Alt (Lit ''vtt'') (Lit ''srt'')]) u g'"
  then obtain g' where "lang (Seq (Plus not_quote) (Seq (Lit ''.'') (Alt (Lit ''vtt'') (Lit ''srt'')))) u g'"
    by (auto simp only: seqs.simps)
  then obtain stem ext g1 g2 where x: "u = stem @ ext" "lang (Plus not_quote) stem g1"
      "lang (Seq (Lit ''.'') (Alt (Lit ''vtt'') (Lit ''srt''))) ext g2"
    by (rule lang_SeqE)
  have "stem \<noteq> []" "no_quotes stem" using x(2) unfolding lang_Plus_not_quote by blast+
  moreover have "ci_eq ext ''.vtt'' \<or> ci_eq ext ''.srt''" using x(3) lang_ext by blast
  ultimately show "sub_url u"
    unfolding sub_url_def using x(1) by (intro exI[of _ stem] exI[of _ ext] conjI)
next
  assume "sub_url u"
  then obtain stem ext where x: "u = stem @ ext" "stem \<noteq> []" "no_quotes stem"
      "ci_eq ext ''.vtt'' \<or> ci_eq ext ''.srt''"
    unfolding sub_url_def by blast
  have 1: "lang (Plus not_quote) stem None" using x(2,3) by (simp only: lang_Plus_not_quote simp_thms)
  obtain g2 where 2: "lang (Seq (Lit ''.'') (Alt (Lit ''vtt'') (Lit ''srt''))) ext g2"
    using x(4) lang_ext by blast
  have "lang (Seq (Plus not_quote) (Seq (Lit ''.'') (Alt (Lit ''vtt'') (Lit ''srt'')))) (stem @ ext)
          (case g2 of None \<Rightarrow> None | Some x \<Rightarrow> Some x)"
    using lang_SeqI[OF 1 2] .
  then show "\<exists>g'. lang (seqs [Plus not_quote, Lit ''.'', Alt (Lit ''vtt'') (Lit ''srt'')]) u g'"
    unfolding x(1) by (auto simp only: seqs.simps)
qed

lemma tail_quoted:
  "(\<exists>pre e1 u e2. w = pre @ e1 @ u @ e2 \<and> P pre \<and> e1 = [CHR 0x22] \<and> e2 = [CHR 0x22] \<and> H u \<and> g = Some u)
     \<longleftrightarrow> (\<exists>u. g = Some u \<and> (\<exists>pre. w = pre @ quoted u \<and> H u \<and> P pre))"
  by (auto simp: quoted_def)

lemma lang_fragment:
  assumes "\<forall>r \<in> set rs. nogroup r" and "\<And>u. (\<exists>g'. lang G u g') \<longleftrightarrow> H u"
  shows "lang (seqs (rs @ [Lit [CHR 0x22], Grp G, Lit [CHR 0x22]])) w g
     \<longleftrightarrow> (\<exists>u. g = Some u \<and> (\<exists>pre. w = pre @ quoted u \<and> H u \<and> pieces (map piece rs) pre))"
  unfolding lang_seqs_tail[OF assms(1)] ci_eq_quote assms(2) by (rule tail_quoted)

lemma lang_HLS: "lang HLS_RE w g \<longleftrightarrow> (\<exists>u. g = Some u \<and> hls_fragment w u)"
proof -
  let ?rs = "[Lit (quoted ''label''), ws, Lit '':'', ws, Lit (quoted ''HD-2''), ws, Lit '','', ws,
                  Lit [CHR 0x22], Alt (Lit ''file'') (Lit ''url''), Lit [CHR 0x22], ws, Lit '':'', ws]"
  have ng: "\<forall>r \<in> set ?rs. nogroup r" by (simp add: ws_def)
  have eq: "HLS_RE = seqs (?rs @ [Lit [CHR 0x22], Grp (Seq (Plus not_quote) (Lit ''.m3u8'')), Lit [CHR 0x22]])"
    by (simp add: HLS_RE_def)
  show ?thesis
    unfolding eq hls_fragment_def
    using lang_fragment[OF ng lang_hls_group, of w g]
    by (simp only: list.map piece_simps)
qed

lemma lang_SUB_CODE: "lang SUB_CODE_RE w g \<longleftrightarrow> (\<exists>u. g = Some u \<and> sub_code_fragment w u)"
proof -
  let ?rs = "[Lit (quoted ''srclang''), ws, Lit '':'', ws, Lit (quoted ''en''), ws, Lit '','', ws,
                  Lit [CHR 0x22], Alt (Lit ''file'') (Alt (Lit ''url'') (Lit ''src'')), Lit [CHR 0x22],
                  ws, Lit '':'', ws]"
  have ng: "\<forall>r \<in> set ?rs. nogroup r" by (simp add: ws_def)
  have eq: "SUB_CODE_RE = seqs (?rs @ [Lit [CHR 0x22],
        Grp (seqs [Plus not_quote, Lit ''.'', Alt (Lit ''vtt'') (Lit ''srt'')]), Lit [CHR 0x22]])"
    by (simp add: SUB_CODE_RE_def)
  show ?thesis
    unfolding eq sub_code_fragment_def
    using lang_fragment[OF ng lang_sub_group, of w g]
    by (simp only: list.map piece_simps)
qed

lemma lang_SUB_NAME: "lang SUB_NAME_RE w g \<longleftrightarrow> (\<exists>u. g = Some u \<and> sub_name_fragment w u)"
proof -
  let ?rs = "[Lit (quoted ''lang''), ws, Lit '':'', ws,
                  Lit (CHR 0x22 # ''English''), Star not_quote, Lit [CHR 0x22], ws, Lit '','', ws,
                  Lit [CHR 0x22], Alt (Lit ''file'') (Alt (Lit ''url'') (Lit ''src'')), Lit [CHR 0x22],
                  ws, Lit '':'', ws]"
  have ng: "\<forall>r \<in> set ?rs. nogroup r" by (simp add: ws_def)
  have eq: "SUB_NAME_RE = seqs (?rs @ [Lit [CHR 0x22],
        Grp (seqs [Plus not_quote, Lit ''.'', Alt (Lit ''vtt'') (Lit ''srt'')]), Lit [CHR 0x22]])"
    by (simp add: SUB_NAME_RE_def)
  show ?thesis
    unfolding eq sub_name_fragment_def
    using lang_fragment[OF ng lang_sub_group, of w g]
    by (simp only: list.map piece_simps)
qed


end
